theory Spec2Isabelle
  imports Complex_Main
begin

section \<open>API types (frontend/src/types/index.ts)\<close>

text \<open>
  The TypeScript interfaces of the API responses. A field of type \<open>T | null\<close> is an
  option, \<open>number\<close> is a real, \<open>string\<close> a string. The string-literal union of
  \<open>processing_status\<close> is a datatype with one constructor per literal. Field names carry
  the interface's name as a prefix, since \<open>id\<close>, \<open>width\<close> and \<open>height\<close> occur in more
  than one interface.
\<close>

datatype processing_status = Pending | Processing | Completed | Failed

record BoundingBox =
  bb_x :: real
  bb_y :: real
  bb_width :: real
  bb_height :: real

record Image =
  Image_id :: string
  Image_filename :: string
  Image_storage_key :: string
  Image_storage_url :: "string option"
  Image_mime_type :: "string option"
  Image_file_size :: "real option"
  Image_width :: "real option"
  Image_height :: "real option"
  Image_uploaded_at :: string
  Image_processed_at :: "string option"
  Image_processing_status :: processing_status

record Face =
  Face_id :: string
  Face_image_id :: string
  Face_bounding_box :: BoundingBox
  Face_confidence :: "real option"
  Face_detected_at :: string
  Face_person_group_id :: "string option"

record PersonGroup =
  PersonGroup_id :: string
  PersonGroup_name :: "string option"
  PersonGroup_representative_face_id :: "string option"
  PersonGroup_created_at :: string
  PersonGroup_updated_at :: string

section \<open>Upload view (frontend/src/components/Upload/ImageUpload.tsx)\<close>

text \<open>
  \<^verbatim>\<open>prev.filter((_, i) => i !== index)\<close>: JavaScript's \<open>Array.prototype.filter\<close> calls the
  predicate with the element and its position, and keeps the elements for which it
  holds, in order. The index argument of \<open>removeFile\<close> is a \<open>number\<close>; positions are
  the naturals below the length, so an index that is negative compares unequal to all
  of them.
\<close>

fun filter_indexed :: "('a \<Rightarrow> nat \<Rightarrow> bool) \<Rightarrow> nat \<Rightarrow> 'a list \<Rightarrow> 'a list" where
  "filter_indexed p i [] = []"
| "filter_indexed p i (x # xs) =
     (if p x i then x # filter_indexed p (Suc i) xs else filter_indexed p (Suc i) xs)"

definition array_filter :: "('a \<Rightarrow> nat \<Rightarrow> bool) \<Rightarrow> 'a list \<Rightarrow> 'a list" where
  "array_filter p xs = filter_indexed p 0 xs"

definition removeFile :: "int \<Rightarrow> 'a list \<Rightarrow> 'a list" where
  "removeFile index prev = array_filter (\<lambda>_ i. int i \<noteq> index) prev"

section \<open>API client (frontend/src/services/api.ts)\<close>

text \<open>
  An HTTP call made through the axios instance is a value: the method, the instance's
  \<open>baseURL\<close>, the URL given to the call, the query parameters and the JSON body. An
  accessor returns the calls it issues, in order, paired with what it returns; the
  backend is a function from the call to \<open>response.data\<close>.
\<close>

datatype http_method = GET | POST | DELETE

datatype json = JString string | JNumber int | JObject "(string \<times> json) list"

record request =
  req_method :: http_method
  req_baseURL :: string
  req_url :: string
  req_params :: "(string \<times> int) list"
  req_data :: "json option"

definition baseURL :: string where
  "baseURL = ''/api''"

definition api_get :: "string \<Rightarrow> (string \<times> int) list \<Rightarrow> request" where
  "api_get url params =
     \<lparr>req_method = GET, req_baseURL = baseURL, req_url = url, req_params = params,
      req_data = None\<rparr>"

definition api_post :: "string \<Rightarrow> json option \<Rightarrow> request" where
  "api_post url body =
     \<lparr>req_method = POST, req_baseURL = baseURL, req_url = url, req_params = [],
      req_data = body\<rparr>"

definition api_delete :: "string \<Rightarrow> request" where
  "api_delete url =
     \<lparr>req_method = DELETE, req_baseURL = baseURL, req_url = url, req_params = [],
      req_data = None\<rparr>"

text \<open>
  The address a call goes to. axios joins a relative URL to the base with
  \<^verbatim>\<open>baseURL.replace(/\/?\/$/, '') + '/' + relativeURL.replace(/^\/+/, '')\<close>: up to two
  slashes are cut from the end of the base, all leading slashes from the relative URL.
\<close>

definition strip_trailing_slashes :: "string \<Rightarrow> string" where
  "strip_trailing_slashes b =
     (case rev b of
        c # d # t \<Rightarrow>
          (if c = CHR ''/'' \<and> d = CHR ''/'' then rev t
           else if c = CHR ''/'' then rev (d # t) else b)
      | [c] \<Rightarrow> (if c = CHR ''/'' then [] else b)
      | [] \<Rightarrow> b)"

definition combineURLs :: "string \<Rightarrow> string \<Rightarrow> string" where
  "combineURLs b relativeURL =
     (if relativeURL = [] then b
      else strip_trailing_slashes b @ ''/'' @ dropWhile (\<lambda>c. c = CHR ''/'') relativeURL)"

definition request_address :: "request \<Rightarrow> string" where
  "request_address r = combineURLs (req_baseURL r) (req_url r)"

text \<open>
  A parameter with a default (\<^verbatim>\<open>skip = 0, limit = 100\<close>) takes the default when the
  caller leaves the argument out: the argument is an option, \<open>None\<close> when omitted.
\<close>

definition with_default :: "'a \<Rightarrow> 'a option \<Rightarrow> 'a" where
  "with_default d a = (case a of None \<Rightarrow> d | Some v \<Rightarrow> v)"

definition list_params :: "int option \<Rightarrow> int option \<Rightarrow> (string \<times> int) list" where
  "list_params skip limit =
     [(''skip'', with_default 0 skip), (''limit'', with_default 100 limit)]"

definition imagesApi_list ::
  "(request \<Rightarrow> 'r) \<Rightarrow> int option \<Rightarrow> int option \<Rightarrow> request list \<times> 'r" where
  "imagesApi_list backend skip limit =
     (let r = api_get ''/images'' (list_params skip limit) in ([r], backend r))"

definition imagesApi_get :: "(request \<Rightarrow> 'r) \<Rightarrow> string \<Rightarrow> request list \<times> 'r" where
  "imagesApi_get backend ident =
     (let r = api_get (''/images/'' @ ident) [] in ([r], backend r))"

definition imagesApi_retryProcessing :: "string \<Rightarrow> request list" where
  "imagesApi_retryProcessing ident = [api_post (''/images/'' @ ident @ ''/retry'') None]"

definition facesApi_list ::
  "(request \<Rightarrow> 'r) \<Rightarrow> int option \<Rightarrow> int option \<Rightarrow> request list \<times> 'r" where
  "facesApi_list backend skip limit =
     (let r = api_get ''/faces'' (list_params skip limit) in ([r], backend r))"

definition groupsApi_list ::
  "(request \<Rightarrow> 'r) \<Rightarrow> int option \<Rightarrow> int option \<Rightarrow> request list \<times> 'r" where
  "groupsApi_list backend skip limit =
     (let r = api_get ''/groups'' (list_params skip limit) in ([r], backend r))"

definition groupsApi_merge :: "string \<Rightarrow> string \<Rightarrow> request list" where
  "groupsApi_merge sourceId targetId =
     [api_post (''/groups/'' @ sourceId @ ''/merge'')
        (Some (JObject [(''target_group_id'', JString targetId)]))]"

definition groupsApi_delete :: "string \<Rightarrow> request list" where
  "groupsApi_delete ident = [api_delete (''/groups/'' @ ident)]"

section \<open>Grid views (components/Images/ImageGrid.tsx, components/People/PeopleGrid.tsx)\<close>

text \<open>The \<open>queryFn\<close> of each grid's query: what the grid fetches.\<close>

definition ImageGrid_queryFn :: "(request \<Rightarrow> 'r) \<Rightarrow> request list \<times> 'r" where
  "ImageGrid_queryFn backend = imagesApi_list backend (Some 0) (Some 100)"

definition PeopleGrid_queryFn :: "(request \<Rightarrow> 'r) \<Rightarrow> request list \<times> 'r" where
  "PeopleGrid_queryFn backend = groupsApi_list backend (Some 0) (Some 100)"

text \<open>
  A backend honours \<open>limit\<close> when no list it returns is longer than the \<open>limit\<close>
  parameter of the call it answers.
\<close>

definition honours_limit :: "(request \<Rightarrow> 'a list) \<Rightarrow> bool" where
  "honours_limit backend =
     (\<forall>r l. map_of (req_params r) ''limit'' = Some l \<longrightarrow> length (backend r) \<le> nat l)"

text \<open>A backend over a fixed table that pages it with \<open>skip\<close> and \<open>limit\<close>.\<close>

definition paging_backend :: "'a list \<Rightarrow> request \<Rightarrow> 'a list" where
  "paging_backend table r =
     take (nat (with_default 100 (map_of (req_params r) ''limit'')))
       (drop (nat (with_default 0 (map_of (req_params r) ''skip''))) table)"

section \<open>Image detail view\<close>

text \<open>
  The view's image query polls (part_002 of the unnamed sources):
  \<^verbatim>\<open>refetchInterval: (query) => { const data = query.state.data as any;
     if (data?.processing_status === 'processing' || data?.processing_status === 'pending')
       return 2000;  return false; }\<close>
  The result is a number of milliseconds or \<open>false\<close>; \<open>query.state.data\<close> is undefined
  until the image is fetched.
\<close>

datatype refetch = Every nat | NoRefetch

definition optional_status :: "Image option \<Rightarrow> processing_status option" where
  "optional_status d = map_option Image_processing_status d"

definition refetchInterval :: "Image option \<Rightarrow> refetch" where
  "refetchInterval d =
     (if optional_status d = Some Processing \<or> optional_status d = Some Pending
      then Every 2000 else NoRefetch)"

text \<open>
  What the component renders, as far as its buttons go. A button has a handler and may
  be disabled; a click on a disabled button runs nothing. \<open>retryMutation.mutate()\<close>
  runs \<open>imagesApi.retryProcessing(imageId)\<close>. Labels are given without their emoji.
\<close>

datatype action = HistoryBack | RetryMutate | DebugMutate

record button =
  onClick :: action
  disabled :: bool
  label :: string

datatype view = Spinner | NotFound | Detail "button list"

record detail_state =
  imageLoading :: bool
  facesLoading :: bool
  image :: "Image option"
  faces :: "Face list option"
  retry_isPending :: bool
  debug_isPending :: bool

definition has_faces :: "Face list option \<Rightarrow> bool" where
  "has_faces fs = (case fs of None \<Rightarrow> False | Some l \<Rightarrow> length l > 0)"

definition back_button :: button where
  "back_button = \<lparr>onClick = HistoryBack, disabled = False, label = ''Back''\<rparr>"

definition retry_button :: "bool \<Rightarrow> string \<Rightarrow> string \<Rightarrow> button" where
  "retry_button busy busy_label idle_label =
     \<lparr>onClick = RetryMutate, disabled = busy,
      label = (if busy then busy_label else idle_label)\<rparr>"

text \<open>frontend/src/components/Images/ImageDetail.tsx\<close>

definition ImageDetail :: "detail_state \<Rightarrow> view" where
  "ImageDetail st =
     (if imageLoading st \<or> facesLoading st then Spinner
      else case image st of
        None \<Rightarrow> NotFound
      | Some img \<Rightarrow>
          Detail
            ([back_button] @
             (if Image_processing_status img = Failed \<or> Image_processing_status img = Pending
              then [retry_button (retry_isPending st) ''Retrying...'' ''Retry Processing'']
              else [])))"

text \<open>The later version of the component, with the redo buttons (part_002).\<close>

definition ImageDetail_redo :: "detail_state \<Rightarrow> view" where
  "ImageDetail_redo st =
     (if imageLoading st \<or> facesLoading st then Spinner
      else case image st of
        None \<Rightarrow> NotFound
      | Some img \<Rightarrow>
          Detail
            ([back_button] @
             (if Image_processing_status img = Failed \<or> Image_processing_status img = Pending
              then [retry_button (retry_isPending st) ''Retrying...'' ''Retry Processing'']
              else []) @
             (if Image_processing_status img = Completed
              then [retry_button (retry_isPending st) ''Redetecting...'' ''Redo Face Detection'',
                    \<lparr>onClick = DebugMutate, disabled = debug_isPending st,
                     label = (if debug_isPending st then ''Testing...'' else ''Test Detection'')\<rparr>]
              else []) @
             (if Image_processing_status img = Completed
              then (if has_faces (faces st) then []
                    else [retry_button (retry_isPending st)
                            ''Redetecting Faces...'' ''Redo Face Detection'']) @
                   (if has_faces (faces st)
                    then [retry_button (retry_isPending st)
                            ''Redetecting...'' ''Redo Face Detection'']
                    else [])
              else [])))"

definition view_buttons :: "view \<Rightarrow> button list" where
  "view_buttons v = (case v of Detail bs \<Rightarrow> bs | _ \<Rightarrow> [])"

text \<open>
  The retry action is offered when the view shows a button that runs it; a click on a
  button issues the retry call for the image of the route unless the button is disabled.
\<close>

definition retry_offered :: "view \<Rightarrow> bool" where
  "retry_offered v = list_ex (\<lambda>b. onClick b = RetryMutate) (view_buttons v)"

definition click :: "string \<Rightarrow> button \<Rightarrow> request list" where
  "click imageId b =
     (if disabled b then []
      else case onClick b of
        RetryMutate \<Rightarrow> imagesApi_retryProcessing imageId
      | DebugMutate \<Rightarrow> [api_get (''/images/'' @ imageId @ ''/detection-debug'') []]
      | HistoryBack \<Rightarrow> [])"

text \<open>
  The confidence of a face in the list of detected faces:
  \<^verbatim>\<open>face.confidence?.toFixed(2) || 'N/A'\<close>. Optional chaining gives undefined for a null
  confidence; \<open>||\<close> takes its right operand when the left is undefined or the empty
  string. \<open>Number.prototype.toFixed\<close> is the platform's, taken as a parameter.
\<close>

definition js_or :: "string option \<Rightarrow> string \<Rightarrow> string" where
  "js_or v d = (case v of None \<Rightarrow> d | Some s \<Rightarrow> if s = [] then d else s)"

definition confidence_text :: "(real \<Rightarrow> nat \<Rightarrow> string) \<Rightarrow> Face \<Rightarrow> string" where
  "confidence_text toFixed face =
     js_or (map_option (\<lambda>c. toFixed c 2) (Face_confidence face)) ''N/A''"

subsection \<open>The view against the backend\<close>

text \<open>
  The view shows what its queries last fetched; the current status of the image is the
  backend's, and it moves without the view (processing starts by itself after an
  upload, another client may retry). ImageDetail.tsx fetches when it mounts and after a
  retry has succeeded (\<open>invalidateQueries\<close> in \<open>onSuccess\<close>); part_002 also polls every two
  seconds while the fetched status is pending or processing. Between two fetches the
  backend may move. A session is the backend's record, the state of the view, and the
  calls issued so far, each with the backend's status at the moment of the call. A
  click counts only on a button the view shows; a mutation is pending from the click
  until it settles.
\<close>

record session =
  backend_image :: Image
  backend_faces :: "Face list"
  shown :: detail_state
  issued :: "(request \<times> processing_status) list"

datatype event = Fetched | BackendSets processing_status | Click button | Settles action

definition initial_session :: "Image \<Rightarrow> session" where
  "initial_session img =
     \<lparr>backend_image = img, backend_faces = [],
      shown = \<lparr>imageLoading = True, facesLoading = True, image = None, faces = None,
               retry_isPending = False, debug_isPending = False\<rparr>,
      issued = []\<rparr>"

definition start_mutation :: "button \<Rightarrow> detail_state \<Rightarrow> detail_state" where
  "start_mutation b st =
     (if disabled b then st
      else case onClick b of
        RetryMutate \<Rightarrow> st\<lparr>retry_isPending := True\<rparr>
      | DebugMutate \<Rightarrow> st\<lparr>debug_isPending := True\<rparr>
      | HistoryBack \<Rightarrow> st)"

definition settle_mutation :: "action \<Rightarrow> detail_state \<Rightarrow> detail_state" where
  "settle_mutation a st =
     (case a of
        RetryMutate \<Rightarrow> st\<lparr>retry_isPending := False\<rparr>
      | DebugMutate \<Rightarrow> st\<lparr>debug_isPending := False\<rparr>
      | HistoryBack \<Rightarrow> st)"

definition session_step :: "(detail_state \<Rightarrow> view) \<Rightarrow> event \<Rightarrow> session \<Rightarrow> session" where
  "session_step render e s =
     (case e of
        Fetched \<Rightarrow>
          s\<lparr>shown := (shown s)\<lparr>imageLoading := False, facesLoading := False,
                               image := Some (backend_image s),
                               faces := Some (backend_faces s)\<rparr>\<rparr>
      | BackendSets st \<Rightarrow>
          s\<lparr>backend_image := (backend_image s)\<lparr>Image_processing_status := st\<rparr>\<rparr>
      | Click b \<Rightarrow>
          if b \<in> set (view_buttons (render (shown s)))
          then s\<lparr>issued := issued s @
                   map (\<lambda>r. (r, Image_processing_status (backend_image s)))
                     (click (Image_id (backend_image s)) b),
                 shown := start_mutation b (shown s)\<rparr>
          else s
      | Settles a \<Rightarrow> s\<lparr>shown := settle_mutation a (shown s)\<rparr>)"

definition run_session :: "(detail_state \<Rightarrow> view) \<Rightarrow> event list \<Rightarrow> session \<Rightarrow> session" where
  "run_session render es s = fold (session_step render) es s"

section \<open>Clustering core\<close>

text \<open>
  Modelled from the spec: the backend (Embedding Store, Similarity Index, Grouping
  Engine, Group Maintenance, Reprocessing Coordinator, Processing State Machine) is not
  among the sources, which hold the frontend only. The definitions of this section follow
  sections 3, 4, 6 and 7 of the specification. Identifiers are only required to be unique;
  they are naturals handed out by counters. Timestamps are naturals supplied by the
  caller. Embeddings are lists of reals.
\<close>

type_synonym face_id = nat
type_synonym group_id = nat
type_synonym image_id = nat

datatype error =
  DetectionError | EmbeddingDimensionError | ConcurrentProcessingError | GroupNotFoundError

text \<open>
  Modelled from the spec: the detector's output contract (section 6), a list of
  \<open>{bbox, confidence, embedding}\<close> or a \<open>DetectionError\<close>.
\<close>

record detection =
  det_bbox :: BoundingBox
  det_confidence :: real
  det_embedding :: "real list"

datatype detector_result = DetectorFailed | Detected "detection list"

text \<open>
  Modelled from the spec: the Face and PersonGroup rows of the Embedding Store
  (section 3). \<open>representative_face_id\<close> is optional in the row, as it is nullable in the
  \<open>PersonGroup\<close> interface of the API types.
\<close>

record face_row =
  fr_id :: face_id
  fr_image_id :: image_id
  fr_embedding :: "real list"
  fr_bounding_box :: BoundingBox
  fr_confidence :: real
  fr_detected_at :: nat
  fr_person_group_id :: "group_id option"

record group_row =
  gr_id :: group_id
  gr_name :: "string option"
  gr_representative_face_id :: "face_id option"
  gr_created_at :: nat
  gr_updated_at :: nat

text \<open>
  Modelled from the spec: the configuration surface (section 6), with the policy of
  \<open>delete_group\<close> for the faces of the deleted group.
\<close>

datatype delete_policy = OrphanFaces | DeleteFaces

record config =
  SIMILARITY_THRESHOLD :: real
  EMBEDDING_DIM :: nat
  DELETE_GROUP_POLICY :: delete_policy

definition default_config :: "nat \<Rightarrow> config" where
  "default_config d =
     \<lparr>SIMILARITY_THRESHOLD = 0.6, EMBEDDING_DIM = d, DELETE_GROUP_POLICY = OrphanFaces\<rparr>"

text \<open>
  Modelled from the spec: the state of the core. Faces and groups are kept in insertion
  order, so that the creation order of groups is the order of \<open>group_rows\<close>. Every image
  starts \<open>pending\<close>.
\<close>

record store =
  face_rows :: "face_row list"
  group_rows :: "group_row list"
  image_status :: "image_id \<Rightarrow> processing_status"
  next_face_id :: face_id
  next_group_id :: group_id

definition empty_store :: store where
  "empty_store =
     \<lparr>face_rows = [], group_rows = [], image_status = (\<lambda>_. Pending),
      next_face_id = 0, next_group_id = 0\<rparr>"

subsection \<open>Similarity Index (section 4.1)\<close>

text \<open>
  Modelled from the spec: cosine similarity \<open>dot(a,b) / (||a|| * ||b||)\<close>. HOL's division
  by zero is zero, so the similarity to a zero vector is 0 here; the specification takes
  embeddings to be normalizable.
\<close>

definition dot :: "real list \<Rightarrow> real list \<Rightarrow> real" where
  "dot a b = sum_list (map (\<lambda>(x, y). x * y) (zip a b))"

definition l2_norm :: "real list \<Rightarrow> real" where
  "l2_norm a = sqrt (dot a a)"

definition cosine_similarity :: "real list \<Rightarrow> real list \<Rightarrow> real" where
  "cosine_similarity a b = dot a b / (l2_norm a * l2_norm b)"

text \<open>
  Modelled from the spec: a group's position is the embedding of its representative,
  looked up by the id the group row holds (section 3, ownership).
\<close>

definition find_face :: "store \<Rightarrow> face_id \<Rightarrow> face_row option" where
  "find_face s fid = find (\<lambda>f. fr_id f = fid) (face_rows s)"

definition representative_embedding :: "store \<Rightarrow> group_row \<Rightarrow> real list option" where
  "representative_embedding s g =
     (case gr_representative_face_id g of
        None \<Rightarrow> None
      | Some fid \<Rightarrow> map_option fr_embedding (find_face s fid))"

text \<open>
  Modelled from the spec: one entry per group, the similarity to the embedding of the
  group's current representative, in the creation order of the groups.
\<close>

definition similarities :: "store \<Rightarrow> real list \<Rightarrow> (group_id \<times> real) list" where
  "similarities s e =
     List.map_filter
       (\<lambda>g. map_option (\<lambda>r. (gr_id g, cosine_similarity e r)) (representative_embedding s g))
       (group_rows s)"

text \<open>
  Modelled from the spec: \<open>nearest(embedding, k)\<close>, the \<open>k\<close> best entries with the highest
  similarity first. The sort is stable, so among equal similarities the group created
  earlier comes first.
\<close>

definition nearest :: "store \<Rightarrow> real list \<Rightarrow> nat \<Rightarrow> (group_id \<times> real) list" where
  "nearest s e k = take k (sort_key (\<lambda>(g, sim). - sim) (similarities s e))"

text \<open>
  The best match among the entries: none is more similar, and it is the first in
  creation order among those as similar as it.
\<close>

definition best_match :: "(group_id \<times> real) list \<Rightarrow> group_id \<times> real \<Rightarrow> bool" where
  "best_match sims m =
     (m \<in> set sims \<and> (\<forall>x \<in> set sims. snd x \<le> snd m) \<and>
      hd (filter (\<lambda>x. snd x = snd m) sims) = m)"

subsection \<open>Grouping Engine (section 4.2)\<close>

text \<open>
  Modelled from the spec: the two outcomes of an assignment. The new face takes the
  next face id; a new group takes the next group id and the new face as its
  representative.
\<close>

definition new_face :: "store \<Rightarrow> image_id \<Rightarrow> detection \<Rightarrow> nat \<Rightarrow> group_id \<Rightarrow> face_row" where
  "new_face s img d now g =
     \<lparr>fr_id = next_face_id s, fr_image_id = img, fr_embedding = det_embedding d,
      fr_bounding_box = det_bbox d, fr_confidence = det_confidence d,
      fr_detected_at = now, fr_person_group_id = Some g\<rparr>"

definition join_group :: "image_id \<Rightarrow> detection \<Rightarrow> nat \<Rightarrow> group_id \<Rightarrow> store \<Rightarrow> face_row \<times> store" where
  "join_group img d now g s =
     (let f = new_face s img d now g
      in (f, s\<lparr>face_rows := face_rows s @ [f], next_face_id := Suc (next_face_id s)\<rparr>))"

definition create_group :: "image_id \<Rightarrow> detection \<Rightarrow> nat \<Rightarrow> store \<Rightarrow> face_row \<times> store" where
  "create_group img d now s =
     (let f = new_face s img d now (next_group_id s);
          g = \<lparr>gr_id = next_group_id s, gr_name = None,
               gr_representative_face_id = Some (fr_id f),
               gr_created_at = now, gr_updated_at = now\<rparr>
      in (f, s\<lparr>face_rows := face_rows s @ [f], group_rows := group_rows s @ [g],
               next_face_id := Suc (next_face_id s),
               next_group_id := Suc (next_group_id s)\<rparr>))"

text \<open>
  Modelled from the spec: \<open>assign(face_detection) -> Face\<close>. The dimensionality is
  validated on every insert; the single best match is asked of the Similarity Index;
  at or above the threshold the face joins that group, otherwise a new group is created
  with the face as its representative. The face and the new group are stored together.
\<close>

definition assign ::
  "config \<Rightarrow> image_id \<Rightarrow> detection \<Rightarrow> nat \<Rightarrow> store \<Rightarrow> error + face_row \<times> store" where
  "assign cfg img d now s =
     (if length (det_embedding d) \<noteq> EMBEDDING_DIM cfg then Inl EmbeddingDimensionError
      else case nearest s (det_embedding d) 1 of
        [] \<Rightarrow> Inr (create_group img d now s)
      | (g, sim) # _ \<Rightarrow>
          if SIMILARITY_THRESHOLD cfg \<le> sim then Inr (join_group img d now g s)
          else Inr (create_group img d now s))"

text \<open>
  Modelled from the spec: the detections of one image are assigned in the detector's
  order, each against the state the earlier ones left; the first failure ends the run.
\<close>

fun assign_all ::
  "config \<Rightarrow> image_id \<Rightarrow> detection list \<Rightarrow> nat \<Rightarrow> store \<Rightarrow> error + store" where
  "assign_all cfg img [] now s = Inr s"
| "assign_all cfg img (d # ds) now s =
     (case assign cfg img d now s of
        Inl e \<Rightarrow> Inl e
      | Inr (f, s') \<Rightarrow> assign_all cfg img ds now s')"

subsection \<open>Group Maintenance (section 4.3)\<close>

text \<open>
  Modelled from the spec: a group exists when a row has its id; its members are the
  faces whose \<open>person_group_id\<close> is its id.
\<close>

definition group_exists :: "store \<Rightarrow> group_id \<Rightarrow> bool" where
  "group_exists s g = (g \<in> set (map gr_id (group_rows s)))"

definition group_members :: "store \<Rightarrow> group_id \<Rightarrow> face_row list" where
  "group_members s g = filter (\<lambda>f. fr_person_group_id f = Some g) (face_rows s)"

text \<open>
  Modelled from the spec: \<open>Merge(sourceGroupId, targetGroupId)\<close> reassigns every face of
  the source to the target, then deletes the source group; the target's representative
  is left as it is. A source that no longer exists is a success that changes nothing; a
  target that does not exist is a \<open>GroupNotFoundError\<close> that changes nothing. The two
  steps are taken as written also when source and target are the same existing group:
  the reassignment changes no face and the group is deleted.
\<close>

definition merge_groups :: "group_id \<Rightarrow> group_id \<Rightarrow> store \<Rightarrow> error option \<times> store" where
  "merge_groups source target s =
     (if \<not> group_exists s source then (None, s)
      else if \<not> group_exists s target then (Some GroupNotFoundError, s)
      else (None,
            s\<lparr>face_rows :=
                 map (\<lambda>f. if fr_person_group_id f = Some source
                          then f\<lparr>fr_person_group_id := Some target\<rparr> else f)
                   (face_rows s),
              group_rows := filter (\<lambda>g. gr_id g \<noteq> source) (group_rows s)\<rparr>))"

text \<open>
  Modelled from the spec: \<open>delete_group(id)\<close> removes the group and orphans or deletes its
  faces per policy; an unknown id is a \<open>GroupNotFoundError\<close> that changes nothing.
\<close>

definition delete_group :: "config \<Rightarrow> group_id \<Rightarrow> store \<Rightarrow> error option \<times> store" where
  "delete_group cfg g s =
     (if \<not> group_exists s g then (Some GroupNotFoundError, s)
      else (None,
            s\<lparr>face_rows :=
                 (case DELETE_GROUP_POLICY cfg of
                    OrphanFaces \<Rightarrow>
                      map (\<lambda>f. if fr_person_group_id f = Some g
                               then f\<lparr>fr_person_group_id := None\<rparr> else f)
                        (face_rows s)
                  | DeleteFaces \<Rightarrow>
                      filter (\<lambda>f. fr_person_group_id f \<noteq> Some g) (face_rows s)),
              group_rows := filter (\<lambda>r. gr_id r \<noteq> g) (group_rows s)\<rparr>))"

text \<open>
  Modelled from the spec: representative reassignment. When the representative of a
  group has been deleted, the new one is the remaining member of highest confidence,
  the earliest \<open>detected_at\<close> among equals (and the first stored among those); a group
  with no member left is deleted.
\<close>

definition better_representative :: "face_row \<Rightarrow> face_row \<Rightarrow> bool" where
  "better_representative a b =
     (fr_confidence b < fr_confidence a \<or>
      (fr_confidence a = fr_confidence b \<and> fr_detected_at a < fr_detected_at b))"

fun choose_representative :: "face_row \<Rightarrow> face_row list \<Rightarrow> face_row" where
  "choose_representative best [] = best"
| "choose_representative best (f # fs) =
     choose_representative (if better_representative f best then f else best) fs"

definition representative_present :: "store \<Rightarrow> group_row \<Rightarrow> bool" where
  "representative_present s g =
     (case gr_representative_face_id g of
        None \<Rightarrow> False
      | Some fid \<Rightarrow> find_face s fid \<noteq> None)"

definition reassign_representative :: "nat \<Rightarrow> store \<Rightarrow> group_row \<Rightarrow> group_row option" where
  "reassign_representative now s g =
     (if representative_present s g then Some g
      else case group_members s (gr_id g) of
        [] \<Rightarrow> None
      | f # fs \<Rightarrow>
          Some (g\<lparr>gr_representative_face_id := Some (fr_id (choose_representative f fs)),
                  gr_updated_at := now\<rparr>))"

definition maintain_groups :: "nat \<Rightarrow> store \<Rightarrow> store" where
  "maintain_groups now s =
     s\<lparr>group_rows := List.map_filter (reassign_representative now s) (group_rows s)\<rparr>"

subsection \<open>Reprocessing Coordinator and Processing State Machine (sections 4.4, 4.5)\<close>

text \<open>
  Modelled from the spec: the status write of the state machine, and step 1 of
  \<open>reprocess\<close>, the deletion of every face of the image.
\<close>

definition set_status :: "image_id \<Rightarrow> processing_status \<Rightarrow> store \<Rightarrow> store" where
  "set_status img st s = s\<lparr>image_status := (image_status s)(img := st)\<rparr>"

definition delete_image_faces :: "image_id \<Rightarrow> store \<Rightarrow> store" where
  "delete_image_faces img s =
     s\<lparr>face_rows := filter (\<lambda>f. fr_image_id f \<noteq> img) (face_rows s)\<rparr>"

text \<open>
  Modelled from the spec: \<open>reprocess(image_id)\<close>. A request against an image that is
  \<open>processing\<close> is rejected with no state change. Otherwise the image becomes
  \<open>processing\<close>, its faces are deleted, the groups are maintained, and every detection
  is assigned in the detector's order; the image ends \<open>completed\<close>. A run that fails
  (detector error, or a detection of the wrong dimensionality) commits nothing but the
  status \<open>failed\<close>.
\<close>

definition reprocess ::
  "config \<Rightarrow> image_id \<Rightarrow> detector_result \<Rightarrow> nat \<Rightarrow> store \<Rightarrow> error option \<times> store" where
  "reprocess cfg img res now s =
     (if image_status s img = Processing then (Some ConcurrentProcessingError, s)
      else case res of
        DetectorFailed \<Rightarrow> (Some DetectionError, set_status img Failed s)
      | Detected ds \<Rightarrow>
          (case assign_all cfg img ds now
                  (maintain_groups now (delete_image_faces img (set_status img Processing s))) of
             Inl e \<Rightarrow> (Some e, set_status img Failed s)
           | Inr s' \<Rightarrow> (None, set_status img Completed s')))"

subsection \<open>Operations and reachable states\<close>

text \<open>
  Modelled from the spec: the operations that change the state (\<open>assign\<close>,
  \<open>merge_groups\<close>, \<open>reprocess\<close>, \<open>delete_group\<close>), each with the inputs the environment
  supplies (the detector's result, the time), and the state after a sequence of them.
  An operation that reports an error leaves the state as the operation defines.
\<close>

datatype operation =
  Assign image_id detection nat
| Merge group_id group_id
| Reprocess image_id detector_result nat
| Delete group_id

definition step :: "config \<Rightarrow> operation \<Rightarrow> store \<Rightarrow> error option \<times> store" where
  "step cfg op s =
     (case op of
        Assign img d now \<Rightarrow>
          (case assign cfg img d now s of
             Inl e \<Rightarrow> (Some e, s)
           | Inr (f, s') \<Rightarrow> (None, s'))
      | Merge source target \<Rightarrow> merge_groups source target s
      | Reprocess img res now \<Rightarrow> reprocess cfg img res now s
      | Delete g \<Rightarrow> delete_group cfg g s)"

definition run :: "config \<Rightarrow> operation list \<Rightarrow> store \<Rightarrow> store" where
  "run cfg ops s = fold (\<lambda>op t. snd (step cfg op t)) ops s"

text \<open>
  Identifiers in use are below the counters and no two faces share one; every group's
  representative is the id of a stored face that belongs to the group.
\<close>

definition ids_fresh :: "store \<Rightarrow> bool" where
  "ids_fresh s =
     ((\<forall>f \<in> set (face_rows s). fr_id f < next_face_id s) \<and>
      distinct (map fr_id (face_rows s)) \<and>
      (\<forall>g \<in> set (group_rows s). gr_id g < next_group_id s))"

definition representative_valid :: "store \<Rightarrow> group_row \<Rightarrow> bool" where
  "representative_valid s g =
     (case gr_representative_face_id g of
        None \<Rightarrow> False
      | Some fid \<Rightarrow>
          (case find_face s fid of
             None \<Rightarrow> False
           | Some f \<Rightarrow> fr_person_group_id f = Some (gr_id g)))"

definition store_inv :: "store \<Rightarrow> bool" where
  "store_inv s = (ids_fresh s \<and> (\<forall>g \<in> set (group_rows s). representative_valid s g))"

section \<open>Example data\<close>

text \<open>Concrete values on which the properties below are exercised.\<close>

definition example_image :: "processing_status \<Rightarrow> Image" where
  "example_image st =
     \<lparr>Image_id = ''img-1'', Image_filename = ''party.jpg'', Image_storage_key = ''k1'',
      Image_storage_url = None, Image_mime_type = Some ''image/jpeg'',
      Image_file_size = Some 1024, Image_width = Some 640, Image_height = Some 480,
      Image_uploaded_at = ''2024-01-01T10:00:00'', Image_processed_at = None,
      Image_processing_status = st\<rparr>"

definition example_detail :: "processing_status \<Rightarrow> detail_state" where
  "example_detail st =
     \<lparr>imageLoading = False, facesLoading = False, image = Some (example_image st),
      faces = Some [], retry_isPending = False, debug_isPending = False\<rparr>"

text \<open>
  The view fetches a pending image, the backend starts processing it, and the user
  clicks the retry button the view still shows.
\<close>

definition stale_click :: "event list" where
  "stale_click =
     [Fetched, BackendSets Processing,
      Click (retry_button False ''Retrying...'' ''Retry Processing'')]"

definition example_box :: BoundingBox where
  "example_box = \<lparr>bb_x = 10, bb_y = 20, bb_width = 64, bb_height = 64\<rparr>"

definition face_without_confidence :: Face where
  "face_without_confidence =
     \<lparr>Face_id = ''face-1'', Face_image_id = ''img-1'', Face_bounding_box = example_box,
      Face_confidence = None, Face_detected_at = ''2024-01-01T10:00:05'',
      Face_person_group_id = None\<rparr>"

text \<open>
  The scenario of section 8 of the specification: threshold 0.6; a first embedding, a
  second at cosine similarity 0.8 to it, a third at 0.3.
\<close>

definition first_seen :: detection where
  "first_seen = \<lparr>det_bbox = example_box, det_confidence = 0.9, det_embedding = [1, 0, 0, 0]\<rparr>"

definition seen_again :: detection where
  "seen_again =
     \<lparr>det_bbox = example_box, det_confidence = 0.8, det_embedding = [0.8, 0.6, 0, 0]\<rparr>"

definition stranger :: detection where
  "stranger =
     \<lparr>det_bbox = example_box, det_confidence = 0.7, det_embedding = [0.3, 0.9, 0.3, 0.1]\<rparr>"

definition one_group_store :: store where
  "one_group_store =
     run (default_config 4) [Reprocess 1 (Detected [first_seen]) 10] empty_store"

definition scenario :: "operation list" where
  "scenario =
     [Reprocess 1 (Detected [first_seen]) 10,
      Reprocess 2 (Detected [seen_again]) 11,
      Reprocess 3 (Detected [stranger]) 12,
      Merge 1 0,
      Reprocess 1 (Detected []) 13]"

definition scenario_group :: group_row where
  "scenario_group =
     \<lparr>gr_id = 0, gr_name = None, gr_representative_face_id = Some 1,
      gr_created_at = 10, gr_updated_at = 13\<rparr>"

section \<open>Properties of the upload view\<close>

lemma filter_indexed_remove:
  "filter_indexed (\<lambda>_ i. int i \<noteq> int (k + n)) k xs =
     (if n < length xs then take n xs @ drop (Suc n) xs else xs)"
proof (induction xs arbitrary: k n)
  case Nil
  show ?case by simp
next
  case (Cons x xs)
  show ?case
  proof (cases n)
    case 0
    have keep: "filter_indexed (\<lambda>_ i. int i \<noteq> int k) (Suc k) ys = ys" for ys :: "'a list"
    proof -
      have "filter_indexed (\<lambda>_ i. int i \<noteq> int k) j ys = ys" if "k < j" for j
        using that by (induction ys arbitrary: j) auto
      then show ?thesis by simp
    qed
    with 0 show ?thesis by simp
  next
    case (Suc m)
    have "filter_indexed (\<lambda>_ i. int i \<noteq> int (Suc k + m)) (Suc k) xs =
            (if m < length xs then take m xs @ drop (Suc m) xs else xs)"
      by (rule Cons.IH)
    with Suc show ?thesis by simp
  qed
qed

lemma filter_indexed_negative:
  "index < 0 \<Longrightarrow> filter_indexed (\<lambda>_ i. int i \<noteq> index) k xs = xs"
  by (induction xs arbitrary: k) auto

text \<open>
  Claim C10. \<open>removeFile(i)\<close> on a list of selected files gives the list without the
  element at position \<open>i\<close>, the others in their order; for an index outside the range of
  the list (negative, or at least its length) the list is unchanged.
\<close>

theorem removeFile_removes_position:
  "removeFile index prev =
     (if 0 \<le> index \<and> nat index < length prev
      then take (nat index) prev @ drop (Suc (nat index)) prev
      else prev)"
proof (cases "0 \<le> index")
  case True
  then have "index = int (0 + nat index)" by simp
  then have "removeFile index prev =
       filter_indexed (\<lambda>_ i. int i \<noteq> int (0 + nat index)) 0 prev"
    by (simp add: removeFile_def array_filter_def)
  then show ?thesis using True by (simp only: filter_indexed_remove) simp
next
  case False
  then show ?thesis
    using filter_indexed_negative [of index 0 prev]
    by (simp add: removeFile_def array_filter_def)
qed

lemma removeFile_example: "removeFile 1 [''a.png'', ''b.png'', ''c.png''] = [''a.png'', ''c.png'']"
  by (simp add: removeFile_def array_filter_def)

section \<open>Properties of the API types\<close>

text \<open>
  Claim C5. The \<open>processing_status\<close> of an Image is one of the four values pending,
  processing, completed and failed, which are pairwise different, and \<open>processed_at\<close>
  is null or a timestamp.
\<close>

theorem image_status_one_of_four:
  "(Image_processing_status img = Pending \<or> Image_processing_status img = Processing \<or>
    Image_processing_status img = Completed \<or> Image_processing_status img = Failed)
   \<and> distinct [Pending, Processing, Completed, Failed]
   \<and> (Image_processed_at img = None \<or> (\<exists>t. Image_processed_at img = Some t))"
proof -
  have "Image_processing_status img = Pending \<or> Image_processing_status img = Processing \<or>
    Image_processing_status img = Completed \<or> Image_processing_status img = Failed"
    by (cases "Image_processing_status img") simp_all
  moreover have "Image_processed_at img = None \<or> (\<exists>t. Image_processed_at img = Some t)"
    by (cases "Image_processed_at img") simp_all
  ultimately show ?thesis by simp
qed

text \<open>
  Claim C6, as stated, fails: the \<open>Face\<close> interface declares
  \<open>confidence: number | null\<close>, so a Face with a null confidence is a value of the type.
\<close>

theorem face_confidence_null_counterexample:
  "Face_confidence face_without_confidence = None"
  by (simp add: face_without_confidence_def)

text \<open>
  Claim C6, amended. The confidence of a Face is a number or null, as is its
  \<open>person_group_id\<close>. The image detail view shows \<open>N/A\<close> for a null confidence, and the
  result of \<open>toFixed(2)\<close> for a number (\<open>N/A\<close> again if that result were empty).
\<close>

theorem confidence_text_nullable:
  "confidence_text toFixed face =
     (case Face_confidence face of
        None \<Rightarrow> ''N/A''
      | Some c \<Rightarrow> if toFixed c 2 = [] then ''N/A'' else toFixed c 2)
   \<and> Face_confidence (face\<lparr>Face_confidence := None\<rparr>) = None
   \<and> Face_person_group_id (face\<lparr>Face_person_group_id := None\<rparr>) = None"
  by (cases "Face_confidence face") (simp_all add: confidence_text_def js_or_def)

section \<open>Properties of the API client\<close>

text \<open>
  Claim C7. \<open>groupsApi.merge(sourceId, targetId)\<close> issues one call, a POST to
  \<open>/api/groups/{sourceId}/merge\<close> with the body \<open>{target_group_id: targetId}\<close>;
  \<open>groupsApi.delete(id)\<close> issues one call, a DELETE to \<open>/api/groups/{id}\<close>.
\<close>

theorem merge_and_delete_requests:
  "(\<exists>r. groupsApi_merge sourceId targetId = [r] \<and> req_method r = POST \<and>
      request_address r = ''/api/groups/'' @ sourceId @ ''/merge'' \<and>
      req_data r = Some (JObject [(''target_group_id'', JString targetId)]))
   \<and> (\<exists>r. groupsApi_delete ident = [r] \<and> req_method r = DELETE \<and>
      request_address r = ''/api/groups/'' @ ident \<and> req_data r = None)"
  by (simp add: groupsApi_merge_def groupsApi_delete_def api_post_def api_delete_def
      request_address_def combineURLs_def strip_trailing_slashes_def baseURL_def)

lemma list_request:
  "fst (imagesApi_list backend skip limit) = [api_get ''/images'' (list_params skip limit)]"
  "fst (facesApi_list backend skip limit) = [api_get ''/faces'' (list_params skip limit)]"
  "fst (groupsApi_list backend skip limit) = [api_get ''/groups'' (list_params skip limit)]"
  by (simp_all add: imagesApi_list_def facesApi_list_def groupsApi_list_def Let_def)

lemma list_result:
  "snd (imagesApi_list backend skip limit) = backend (api_get ''/images'' (list_params skip limit))"
  "snd (groupsApi_list backend skip limit) = backend (api_get ''/groups'' (list_params skip limit))"
  by (simp_all add: imagesApi_list_def groupsApi_list_def Let_def)

lemma honours_limit_paging: "honours_limit (paging_backend table)"
  by (simp add: honours_limit_def paging_backend_def with_default_def)

text \<open>
  Claim C9. Each list accessor sends \<open>skip\<close> and \<open>limit\<close> as query parameters of one GET,
  with 0 and 100 for an argument the caller omits; the image grid and the people grid
  ask for \<open>skip = 0\<close>, \<open>limit = 100\<close>; hence from a backend that honours \<open>limit\<close> each grid
  gets at most 100 records.
\<close>

theorem list_defaults_and_grid_page:
  fixes backend :: "request \<Rightarrow> 'a list"
  shows
  "map req_params (fst (imagesApi_list backend skip limit)) =
      [[(''skip'', with_default 0 skip), (''limit'', with_default 100 limit)]]
   \<and> map req_params (fst (facesApi_list backend skip limit)) =
      [[(''skip'', with_default 0 skip), (''limit'', with_default 100 limit)]]
   \<and> map req_params (fst (groupsApi_list backend skip limit)) =
      [[(''skip'', with_default 0 skip), (''limit'', with_default 100 limit)]]
   \<and> with_default (0::int) None = 0 \<and> with_default (100::int) None = 100
   \<and> with_default 0 (Some n) = n \<and> with_default 100 (Some n) = n
   \<and> map req_method (fst (imagesApi_list backend skip limit)) = [GET]
   \<and> map req_method (fst (facesApi_list backend skip limit)) = [GET]
   \<and> map req_method (fst (groupsApi_list backend skip limit)) = [GET]
   \<and> map req_params (fst (ImageGrid_queryFn backend)) = [[(''skip'', 0), (''limit'', 100)]]
   \<and> map req_params (fst (PeopleGrid_queryFn backend)) = [[(''skip'', 0), (''limit'', 100)]]
   \<and> map request_address (fst (ImageGrid_queryFn backend)) = [''/api/images'']
   \<and> map request_address (fst (PeopleGrid_queryFn backend)) = [''/api/groups'']
   \<and> (honours_limit backend \<longrightarrow>
        length (snd (ImageGrid_queryFn backend)) \<le> 100 \<and>
        length (snd (PeopleGrid_queryFn backend)) \<le> 100)"
proof -
  have params: "map req_params (fst (imagesApi_list backend skip limit)) =
      [[(''skip'', with_default 0 skip), (''limit'', with_default 100 limit)]]"
    "map req_params (fst (facesApi_list backend skip limit)) =
      [[(''skip'', with_default 0 skip), (''limit'', with_default 100 limit)]]"
    "map req_params (fst (groupsApi_list backend skip limit)) =
      [[(''skip'', with_default 0 skip), (''limit'', with_default 100 limit)]]"
    by (simp_all add: list_request api_get_def list_params_def)
  have defaults: "with_default (0::int) None = 0" "with_default (100::int) None = 100"
    "with_default 0 (Some n) = n" "with_default 100 (Some n) = n"
    by (simp_all add: with_default_def)
  have methods: "map req_method (fst (imagesApi_list backend skip limit)) = [GET]"
    "map req_method (fst (facesApi_list backend skip limit)) = [GET]"
    "map req_method (fst (groupsApi_list backend skip limit)) = [GET]"
    by (simp_all add: list_request api_get_def)
  have grids: "map req_params (fst (ImageGrid_queryFn backend)) = [[(''skip'', 0), (''limit'', 100)]]"
    "map req_params (fst (PeopleGrid_queryFn backend)) = [[(''skip'', 0), (''limit'', 100)]]"
    by (simp_all add: ImageGrid_queryFn_def PeopleGrid_queryFn_def list_request api_get_def
        list_params_def with_default_def)
  have addresses: "map request_address (fst (ImageGrid_queryFn backend)) = [''/api/images'']"
    "map request_address (fst (PeopleGrid_queryFn backend)) = [''/api/groups'']"
    by (simp_all add: ImageGrid_queryFn_def PeopleGrid_queryFn_def list_request api_get_def
        request_address_def combineURLs_def strip_trailing_slashes_def baseURL_def)
  have page: "length (snd (ImageGrid_queryFn backend)) \<le> 100 \<and>
        length (snd (PeopleGrid_queryFn backend)) \<le> 100" if h: "honours_limit backend"
  proof -
    have "length (backend (api_get u (list_params (Some 0) (Some 100)))) \<le> nat 100" for u
    proof -
      have "map_of (req_params (api_get u (list_params (Some 0) (Some 100)))) ''limit'' = Some 100"
        by (simp add: api_get_def list_params_def with_default_def)
      with h show ?thesis unfolding honours_limit_def by blast
    qed
    then show ?thesis
      by (simp add: ImageGrid_queryFn_def PeopleGrid_queryFn_def list_result)
  qed
  from params defaults methods grids addresses page show ?thesis by blast
qed

theorem list_defaults_and_grid_page_witness:
  "honours_limit (paging_backend (replicate 150 (example_image Completed))) \<and>
   length (snd (ImageGrid_queryFn (paging_backend (replicate 150 (example_image Completed))))) = 100 \<and>
   length (snd (ImageGrid_queryFn (paging_backend (replicate 150 (example_image Completed))))) \<le> 100 \<and>
   length (snd (PeopleGrid_queryFn (paging_backend (replicate 150 (example_image Completed))))) \<le> 100"
proof -
  let ?b = "paging_backend (replicate 150 (example_image Completed))"
  have h: "honours_limit ?b" by (rule honours_limit_paging)
  have full: "length (snd (ImageGrid_queryFn ?b)) = 100"
    by (simp add: ImageGrid_queryFn_def list_result paging_backend_def api_get_def
        list_params_def with_default_def)
  from h list_defaults_and_grid_page [of ?b] full show ?thesis by blast
qed

section \<open>Properties of the image detail view\<close>

text \<open>
  Claim C8. The \<open>refetchInterval\<close> callback of the image query returns 2000 exactly when
  the fetched image is processing or pending, and false when it is completed or failed
  or when no data is present; it returns nothing else.
\<close>

theorem refetchInterval_polls_iff_in_flight:
  "(refetchInterval d = Every 2000 \<longleftrightarrow>
      (\<exists>img. d = Some img \<and>
         (Image_processing_status img = Processing \<or> Image_processing_status img = Pending)))
   \<and> (refetchInterval d = NoRefetch \<longleftrightarrow>
      (d = None \<or> (\<exists>img. d = Some img \<and>
         (Image_processing_status img = Completed \<or> Image_processing_status img = Failed))))
   \<and> (refetchInterval d = Every 2000 \<or> refetchInterval d = NoRefetch)"
proof (cases d)
  case None
  then show ?thesis by (simp add: refetchInterval_def optional_status_def)
next
  case (Some img)
  then show ?thesis
    by (cases "Image_processing_status img")
       (simp_all add: refetchInterval_def optional_status_def)
qed

lemma retry_offered_ImageDetail:
  "retry_offered (ImageDetail st) \<longleftrightarrow>
     \<not> imageLoading st \<and> \<not> facesLoading st \<and>
     (\<exists>img. image st = Some img \<and>
        (Image_processing_status img = Failed \<or> Image_processing_status img = Pending))"
  by (cases "image st")
     (auto simp: retry_offered_def ImageDetail_def view_buttons_def back_button_def
        retry_button_def)

lemma retry_offered_ImageDetail_redo:
  "retry_offered (ImageDetail_redo st) \<longleftrightarrow>
     \<not> imageLoading st \<and> \<not> facesLoading st \<and>
     (\<exists>img. image st = Some img \<and>
        (Image_processing_status img = Failed \<or> Image_processing_status img = Pending \<or>
         Image_processing_status img = Completed))"
  by (cases "image st")
     (auto simp: retry_offered_def ImageDetail_redo_def view_buttons_def back_button_def
        retry_button_def)

lemma retry_request_only_from_retry_button:
  "api_post (''/images/'' @ imageId @ ''/retry'') None \<in> set (click imageId b)
     \<longleftrightarrow> onClick b = RetryMutate \<and> \<not> disabled b"
  by (cases "onClick b")
     (auto simp: click_def imagesApi_retryProcessing_def api_post_def api_get_def)

lemmas session_defs =
  run_session_def session_step_def initial_session_def stale_click_def example_image_def
  retry_button_def back_button_def view_buttons_def click_def start_mutation_def
  imagesApi_retryProcessing_def

text \<open>
  Claim C4, as stated, fails: the view decides on the record it last fetched, not on the
  current status of the image. In either version, after the view has fetched a pending
  image and the backend has started processing it, a click on the retry button still
  shown issues \<open>POST /images/img-1/retry\<close> while the image is processing.
\<close>

theorem retry_issued_while_processing_counterexample:
  "(api_post ''/images/img-1/retry'' None, Processing)
     \<in> set (issued (run_session ImageDetail stale_click (initial_session (example_image Pending))))
   \<and> (api_post ''/images/img-1/retry'' None, Processing)
     \<in> set (issued (run_session ImageDetail_redo stale_click
                       (initial_session (example_image Pending))))
   \<and> Image_processing_status
        (backend_image (run_session ImageDetail stale_click
                          (initial_session (example_image Pending)))) = Processing"
  by (simp add: session_defs ImageDetail_def ImageDetail_redo_def)

text \<open>
  Claim C4, amended. In either version of the image detail view, when the retry or redo
  action is offered, or a click on a button of the view issues
  \<open>POST /images/{id}/retry\<close>, the image record the view holds (the one its query last
  fetched) has status failed, pending or completed: never processing.
\<close>

theorem retry_only_when_not_processing:
  assumes "v = ImageDetail st \<or> v = ImageDetail_redo st"
    and "retry_offered v \<or>
         (\<exists>b \<in> set (view_buttons v).
            api_post (''/images/'' @ imageId @ ''/retry'') None \<in> set (click imageId b))"
  shows "\<exists>img. image st = Some img \<and>
           (Image_processing_status img = Failed \<or> Image_processing_status img = Pending \<or>
            Image_processing_status img = Completed) \<and>
           Image_processing_status img \<noteq> Processing"
proof -
  have "retry_offered v"
  proof (rule disjE [OF assms(2)])
    assume "retry_offered v"
    then show ?thesis .
  next
    assume "\<exists>b \<in> set (view_buttons v).
            api_post (''/images/'' @ imageId @ ''/retry'') None \<in> set (click imageId b)"
    then obtain b where b: "b \<in> set (view_buttons v)"
      "api_post (''/images/'' @ imageId @ ''/retry'') None \<in> set (click imageId b)"
      by blast
    from b(2) have "onClick b = RetryMutate"
      using retry_request_only_from_retry_button [of imageId b] by blast
    with b(1) show ?thesis
      by (auto simp: retry_offered_def list_ex_iff)
  qed
  with assms(1) show ?thesis
    by (auto simp: retry_offered_ImageDetail retry_offered_ImageDetail_redo)
qed

theorem retry_only_when_not_processing_witness:
  "retry_offered (ImageDetail_redo (example_detail Completed)) \<and>
   (\<exists>b \<in> set (view_buttons (ImageDetail (example_detail Failed))).
      api_post (''/images/'' @ ''img-1'' @ ''/retry'') None \<in> set (click ''img-1'' b)) \<and>
   (\<exists>img. image (example_detail Completed) = Some img \<and>
      Image_processing_status img \<noteq> Processing) \<and>
   (\<exists>img. image (example_detail Failed) = Some img \<and>
      Image_processing_status img \<noteq> Processing)"
proof -
  have offered: "retry_offered (ImageDetail_redo (example_detail Completed))"
    by (simp add: retry_offered_ImageDetail_redo example_detail_def example_image_def)
  have shown: "retry_button False ''Retrying...'' ''Retry Processing''
      \<in> set (view_buttons (ImageDetail (example_detail Failed)))"
    by (simp add: ImageDetail_def view_buttons_def example_detail_def example_image_def)
  have "api_post (''/images/'' @ ''img-1'' @ ''/retry'') None
      \<in> set (click ''img-1'' (retry_button False ''Retrying...'' ''Retry Processing''))"
    by (simp add: click_def retry_button_def imagesApi_retryProcessing_def)
  with shown have clicked:
    "\<exists>b \<in> set (view_buttons (ImageDetail (example_detail Failed))).
      api_post (''/images/'' @ ''img-1'' @ ''/retry'') None \<in> set (click ''img-1'' b)"
    by blast
  from retry_only_when_not_processing
         [of "ImageDetail_redo (example_detail Completed)" "example_detail Completed" "''img-1''"]
       offered
  have a: "\<exists>img. image (example_detail Completed) = Some img \<and>
      Image_processing_status img \<noteq> Processing"
    by blast
  from retry_only_when_not_processing
         [of "ImageDetail (example_detail Failed)" "example_detail Failed" "''img-1''"]
       clicked
  have b: "\<exists>img. image (example_detail Failed) = Some img \<and>
      Image_processing_status img \<noteq> Processing"
    by blast
  from offered clicked a b show ?thesis by blast
qed

section \<open>Properties of the clustering core\<close>

subsection \<open>The store invariant\<close>

lemma find_key_distinct:
  "distinct (map k xs) \<Longrightarrow> (find (\<lambda>x. k x = a) xs = Some x \<longleftrightarrow> x \<in> set xs \<and> k x = a)"
  by (induction xs) (auto simp: image_iff)

lemma find_face_iff:
  "distinct (map fr_id (face_rows s)) \<Longrightarrow>
     (find_face s fid = Some f \<longleftrightarrow> f \<in> set (face_rows s) \<and> fr_id f = fid)"
  unfolding find_face_def by (rule find_key_distinct)

lemma representative_valid_iff:
  assumes "distinct (map fr_id (face_rows s))"
  shows "representative_valid s g \<longleftrightarrow>
     (\<exists>f \<in> set (face_rows s). gr_representative_face_id g = Some (fr_id f) \<and>
        fr_person_group_id f = Some (gr_id g))"
proof
  assume "representative_valid s g"
  then obtain fid f where "gr_representative_face_id g = Some fid"
    "find_face s fid = Some f" "fr_person_group_id f = Some (gr_id g)"
    by (auto simp: representative_valid_def split: option.splits)
  moreover from this assms have "f \<in> set (face_rows s)" "fr_id f = fid"
    by (simp_all add: find_face_iff)
  ultimately show "\<exists>f \<in> set (face_rows s). gr_representative_face_id g = Some (fr_id f) \<and>
        fr_person_group_id f = Some (gr_id g)"
    by blast
next
  assume "\<exists>f \<in> set (face_rows s). gr_representative_face_id g = Some (fr_id f) \<and>
        fr_person_group_id f = Some (gr_id g)"
  then obtain f where f: "f \<in> set (face_rows s)" "gr_representative_face_id g = Some (fr_id f)"
    "fr_person_group_id f = Some (gr_id g)"
    by blast
  from f(1) assms have "find_face s (fr_id f) = Some f"
    by (simp add: find_face_iff)
  with f show "representative_valid s g"
    by (simp add: representative_valid_def)
qed

lemma store_inv_empty: "store_inv empty_store"
  by (simp add: store_inv_def ids_fresh_def empty_store_def)

lemma find_face_set_status [simp]: "find_face (set_status img st s) = find_face s"
  by (rule ext) (simp add: find_face_def set_status_def)

lemma representative_valid_set_status [simp]:
  "representative_valid (set_status img st s) = representative_valid s"
  by (rule ext) (simp add: representative_valid_def cong: option.case_cong)

lemma store_inv_set_status: "store_inv (set_status img st s) = store_inv s"
  by (simp add: store_inv_def ids_fresh_def) (simp add: set_status_def)

lemma store_inv_join:
  assumes "store_inv s"
  shows "store_inv (snd (join_group img d now g s))"
proof -
  let ?s' = "snd (join_group img d now g s)"
  have faces: "face_rows ?s' = face_rows s @ [new_face s img d now g]"
    and groups: "group_rows ?s' = group_rows s"
    and nf: "next_face_id ?s' = Suc (next_face_id s)"
    and ng: "next_group_id ?s' = next_group_id s"
    by (simp_all add: join_group_def Let_def)
  from assms have fresh: "ids_fresh s" and valid: "\<forall>r \<in> set (group_rows s). representative_valid s r"
    by (simp_all add: store_inv_def)
  have fresh': "ids_fresh ?s'"
    using fresh unfolding ids_fresh_def faces groups nf ng
    by (auto simp: new_face_def less_Suc_eq)
  have "representative_valid ?s' r" if "r \<in> set (group_rows s)" for r
  proof -
    from that valid have "representative_valid s r" by blast
    then show ?thesis
      using fresh fresh'
      by (auto simp: representative_valid_iff ids_fresh_def faces)
  qed
  with fresh' groups show ?thesis by (simp add: store_inv_def)
qed

lemma store_inv_create:
  assumes "store_inv s"
  shows "store_inv (snd (create_group img d now s))"
proof -
  let ?s' = "snd (create_group img d now s)"
  let ?f = "new_face s img d now (next_group_id s)"
  let ?g = "\<lparr>gr_id = next_group_id s, gr_name = None,
             gr_representative_face_id = Some (next_face_id s),
             gr_created_at = now, gr_updated_at = now\<rparr>"
  have faces: "face_rows ?s' = face_rows s @ [?f]"
    and groups: "group_rows ?s' = group_rows s @ [?g]"
    and nf: "next_face_id ?s' = Suc (next_face_id s)"
    and ng: "next_group_id ?s' = Suc (next_group_id s)"
    by (simp_all add: create_group_def Let_def new_face_def)
  from assms have fresh: "ids_fresh s" and valid: "\<forall>r \<in> set (group_rows s). representative_valid s r"
    by (simp_all add: store_inv_def)
  have fresh': "ids_fresh ?s'"
    using fresh unfolding ids_fresh_def faces groups nf ng
    by (auto simp: new_face_def less_Suc_eq)
  have old: "representative_valid ?s' r" if "r \<in> set (group_rows s)" for r
  proof -
    from that valid have "representative_valid s r" by blast
    then show ?thesis
      using fresh fresh'
      by (auto simp: representative_valid_iff ids_fresh_def faces)
  qed
  have new: "representative_valid ?s' ?g"
    using fresh' by (simp add: representative_valid_iff ids_fresh_def faces new_face_def)
  from fresh' old new show ?thesis
    unfolding store_inv_def groups by auto
qed

lemma assign_cases:
  assumes "assign cfg img d now s = Inr (f, s')"
  shows "(\<exists>g. join_group img d now g s = (f, s')) \<or> create_group img d now s = (f, s')"
  using assms
  by (auto simp: assign_def split: if_splits list.splits prod.splits)

lemma store_inv_assign:
  assumes "store_inv s" "assign cfg img d now s = Inr (f, s')"
  shows "store_inv s'"
proof -
  from assign_cases [OF assms(2)]
  consider g where "join_group img d now g s = (f, s')" | "create_group img d now s = (f, s')"
    by blast
  then show ?thesis
  proof cases
    case 1
    then have "s' = snd (join_group img d now g s)" by simp
    with assms(1) show ?thesis by (simp add: store_inv_join)
  next
    case 2
    then have "s' = snd (create_group img d now s)" by simp
    with assms(1) show ?thesis by (simp add: store_inv_create)
  qed
qed

lemma store_inv_assign_all:
  "store_inv s \<Longrightarrow> assign_all cfg img ds now s = Inr s' \<Longrightarrow> store_inv s'"
proof (induction ds arbitrary: s)
  case Nil
  then show ?case by simp
next
  case (Cons d ds)
  from Cons.prems(2) obtain f t where a: "assign cfg img d now s = Inr (f, t)"
    and rest: "assign_all cfg img ds now t = Inr s'"
    by (auto split: sum.splits)
  from Cons.prems(1) a have "store_inv t" by (rule store_inv_assign)
  then show ?case using rest by (rule Cons.IH)
qed

lemma map_fr_id_update:
  "map fr_id (map (\<lambda>f. if c f then f\<lparr>fr_person_group_id := v\<rparr> else f) fs) = map fr_id fs"
  by (induction fs) auto


lemma same_id_same_face:
  "distinct (map fr_id fs) \<Longrightarrow> f \<in> set fs \<Longrightarrow> f' \<in> set fs \<Longrightarrow> fr_id f = fr_id f' \<Longrightarrow> f = f'"
  by (simp add: distinct_map inj_on_def)

lemma store_inv_shrink:
  assumes inv: "store_inv s"
    and fresh': "ids_fresh s'"
    and sub: "set (group_rows s') \<subseteq> set (group_rows s)"
    and keep: "\<And>r f. r \<in> set (group_rows s') \<Longrightarrow> f \<in> set (face_rows s) \<Longrightarrow>
                 fr_person_group_id f = Some (gr_id r) \<Longrightarrow> f \<in> set (face_rows s')"
  shows "store_inv s'"
proof -
  from inv have fresh: "ids_fresh s"
    and valid: "\<forall>r \<in> set (group_rows s). representative_valid s r"
    by (simp_all add: store_inv_def)
  have "representative_valid s' r" if r: "r \<in> set (group_rows s')" for r
  proof -
    from r sub valid have "representative_valid s r" by blast
    with fresh obtain f where f: "f \<in> set (face_rows s)"
      "gr_representative_face_id r = Some (fr_id f)" "fr_person_group_id f = Some (gr_id r)"
      by (auto simp: representative_valid_iff ids_fresh_def)
    from r f(1,3) have "f \<in> set (face_rows s')" by (rule keep)
    with f(2,3) fresh' show ?thesis
      by (auto simp: representative_valid_iff ids_fresh_def)
  qed
  with fresh' show ?thesis by (simp add: store_inv_def)
qed

lemma ids_fresh_filter_faces:
  "ids_fresh s \<Longrightarrow> ids_fresh (s\<lparr>face_rows := filter p (face_rows s)\<rparr>)"
  by (simp add: ids_fresh_def distinct_map_filter)

lemma ids_fresh_filter_groups:
  "ids_fresh s \<Longrightarrow> ids_fresh (s\<lparr>group_rows := filter p (group_rows s)\<rparr>)"
  by (simp add: ids_fresh_def)

lemma ids_fresh_update_faces:
  assumes "ids_fresh s"
  shows "ids_fresh
     (s\<lparr>face_rows := map (\<lambda>f. if c f then f\<lparr>fr_person_group_id := v\<rparr> else f) (face_rows s)\<rparr>)"
proof -
  let ?fs = "map (\<lambda>f. if c f then f\<lparr>fr_person_group_id := v\<rparr> else f) (face_rows s)"
  have ids: "map fr_id ?fs = map fr_id (face_rows s)" by (rule map_fr_id_update)
  have "fr_id f < next_face_id s" if "f \<in> set ?fs" for f
  proof -
    from that have "fr_id f \<in> set (map fr_id ?fs)" by (rule imageI [of f "set ?fs" fr_id, folded set_map])
    then have "fr_id f \<in> set (map fr_id (face_rows s))" by (simp only: ids)
    with assms show ?thesis by (auto simp: ids_fresh_def)
  qed
  moreover have "distinct (map fr_id ?fs)"
    using assms by (simp only: ids) (simp add: ids_fresh_def)
  ultimately show ?thesis using assms by (simp add: ids_fresh_def)
qed

lemma store_inv_merge:
  assumes "store_inv s"
  shows "store_inv (snd (merge_groups source target s))"
proof (cases "group_exists s source \<and> group_exists s target")
  case False
  with assms show ?thesis by (auto simp: merge_groups_def)
next
  case True
  let ?upd = "\<lambda>f. if fr_person_group_id f = Some source
                   then f\<lparr>fr_person_group_id := Some target\<rparr> else f"
  let ?s' = "snd (merge_groups source target s)"
  from assms have fresh: "ids_fresh s" by (simp add: store_inv_def)
  from True have s': "?s' =
      (s\<lparr>face_rows := map ?upd (face_rows s)\<rparr>)
        \<lparr>group_rows := filter (\<lambda>g. gr_id g \<noteq> source) (group_rows s)\<rparr>"
    by (simp add: merge_groups_def)
  have faces: "face_rows ?s' = map ?upd (face_rows s)"
    and groups: "group_rows ?s' = filter (\<lambda>g. gr_id g \<noteq> source) (group_rows s)"
    by (simp_all add: s')
  have fresh': "ids_fresh ?s'"
  proof -
    let ?t = "s\<lparr>face_rows := map ?upd (face_rows s)\<rparr>"
    have "ids_fresh ?t" using fresh by (rule ids_fresh_update_faces)
    then have "ids_fresh (?t\<lparr>group_rows := filter (\<lambda>g. gr_id g \<noteq> source) (group_rows ?t)\<rparr>)"
      by (rule ids_fresh_filter_groups)
    then show ?thesis by (simp add: s')
  qed
  show ?thesis
  proof (rule store_inv_shrink [OF assms fresh'])
    show "set (group_rows ?s') \<subseteq> set (group_rows s)" by (auto simp: groups)
  next
    fix r f
    assume r: "r \<in> set (group_rows ?s')" and f: "f \<in> set (face_rows s)"
      and m: "fr_person_group_id f = Some (gr_id r)"
    from r have "gr_id r \<noteq> source" by (simp add: groups)
    with m have same: "?upd f = f" by simp
    from f have "?upd f \<in> set (face_rows ?s')" unfolding faces by simp
    then show "f \<in> set (face_rows ?s')" by (simp only: same)
  qed
qed

lemma store_inv_delete_group:
  assumes "store_inv s"
  shows "store_inv (snd (delete_group cfg g s))"
proof (cases "group_exists s g")
  case False
  with assms show ?thesis by (simp add: delete_group_def)
next
  case True
  let ?s' = "snd (delete_group cfg g s)"
  from assms have fresh: "ids_fresh s" by (simp add: store_inv_def)
  from True have groups: "group_rows ?s' = filter (\<lambda>r. gr_id r \<noteq> g) (group_rows s)"
    by (simp add: delete_group_def)
  show ?thesis
  proof (cases "DELETE_GROUP_POLICY cfg")
    case OrphanFaces
    let ?upd = "\<lambda>f. if fr_person_group_id f = Some g then f\<lparr>fr_person_group_id := None\<rparr> else f"
    from True OrphanFaces have s': "?s' =
        (s\<lparr>face_rows := map ?upd (face_rows s)\<rparr>)\<lparr>group_rows := filter (\<lambda>r. gr_id r \<noteq> g) (group_rows s)\<rparr>"
      by (simp add: delete_group_def)
    have faces: "face_rows ?s' = map ?upd (face_rows s)"
      by (simp add: s')
    have fresh': "ids_fresh ?s'"
    proof -
      let ?t = "s\<lparr>face_rows := map ?upd (face_rows s)\<rparr>"
      have "ids_fresh ?t" using fresh by (rule ids_fresh_update_faces)
      then have "ids_fresh (?t\<lparr>group_rows := filter (\<lambda>r. gr_id r \<noteq> g) (group_rows ?t)\<rparr>)"
        by (rule ids_fresh_filter_groups)
      then show ?thesis by (simp add: s')
    qed
    show ?thesis
    proof (rule store_inv_shrink [OF assms fresh'])
      show "set (group_rows ?s') \<subseteq> set (group_rows s)" by (auto simp: groups)
    next
      fix r f
      assume r: "r \<in> set (group_rows ?s')" and f: "f \<in> set (face_rows s)"
        and m: "fr_person_group_id f = Some (gr_id r)"
      from r have "gr_id r \<noteq> g" by (simp add: groups)
      with m have same: "?upd f = f" by simp
      from f have "?upd f \<in> set (face_rows ?s')" unfolding faces by simp
      then show "f \<in> set (face_rows ?s')" by (simp only: same)
    qed
  next
    case DeleteFaces
    from True DeleteFaces have s': "?s' =
        (s\<lparr>face_rows := filter (\<lambda>f. fr_person_group_id f \<noteq> Some g) (face_rows s)\<rparr>)
          \<lparr>group_rows := filter (\<lambda>r. gr_id r \<noteq> g) (group_rows s)\<rparr>"
      by (simp add: delete_group_def)
    have faces: "face_rows ?s' = filter (\<lambda>f. fr_person_group_id f \<noteq> Some g) (face_rows s)"
      by (simp add: s')
    have fresh': "ids_fresh ?s'"
    proof -
      let ?t = "s\<lparr>face_rows := filter (\<lambda>f. fr_person_group_id f \<noteq> Some g) (face_rows s)\<rparr>"
      have "ids_fresh ?t" using fresh by (rule ids_fresh_filter_faces)
      then have "ids_fresh (?t\<lparr>group_rows := filter (\<lambda>r. gr_id r \<noteq> g) (group_rows ?t)\<rparr>)"
        by (rule ids_fresh_filter_groups)
      then show ?thesis by (simp add: s')
    qed
    show ?thesis
    proof (rule store_inv_shrink [OF assms fresh'])
      show "set (group_rows ?s') \<subseteq> set (group_rows s)" by (auto simp: groups)
    next
      fix r f
      assume r: "r \<in> set (group_rows ?s')" and f: "f \<in> set (face_rows s)"
        and m: "fr_person_group_id f = Some (gr_id r)"
      from r have "gr_id r \<noteq> g" by (simp add: groups)
      with m f show "f \<in> set (face_rows ?s')" by (simp add: faces)
    qed
  qed
qed

lemma choose_representative_in: "choose_representative b fs \<in> set (b # fs)"
  by (induction fs arbitrary: b) (auto split: if_splits)

lemma map_filter_in:
  "y \<in> set (List.map_filter h xs) \<longleftrightarrow> (\<exists>x \<in> set xs. h x = Some y)"
  by (induction xs) (auto simp: List.map_filter_def)

lemma store_inv_maintain_after_delete:
  assumes inv: "store_inv s"
  shows "store_inv (maintain_groups now (delete_image_faces img s))"
proof -
  let ?s1 = "delete_image_faces img s"
  let ?s2 = "maintain_groups now ?s1"
  from inv have fresh: "ids_fresh s"
    and valid: "\<forall>r \<in> set (group_rows s). representative_valid s r"
    by (simp_all add: store_inv_def)
  have fresh1: "ids_fresh ?s1"
    unfolding delete_image_faces_def using fresh by (rule ids_fresh_filter_faces)
  have faces1: "set (face_rows ?s1) \<subseteq> set (face_rows s)"
    by (auto simp: delete_image_faces_def)
  have groups1: "group_rows ?s1 = group_rows s"
    by (simp add: delete_image_faces_def)
  have faces2: "face_rows ?s2 = face_rows ?s1"
    and nf2: "next_face_id ?s2 = next_face_id ?s1"
    and ng2: "next_group_id ?s2 = next_group_id ?s1"
    and groups2: "group_rows ?s2 =
        List.map_filter (reassign_representative now ?s1) (group_rows ?s1)"
    by (simp_all add: maintain_groups_def)
  have origin: "\<exists>r \<in> set (group_rows s). reassign_representative now ?s1 r = Some r'"
    if "r' \<in> set (group_rows ?s2)" for r'
    using that unfolding groups2 groups1 by (simp add: map_filter_in)
  have same_id: "gr_id r' = gr_id r" if "reassign_representative now ?s1 r = Some r'" for r r'
    using that by (auto simp: reassign_representative_def split: if_splits list.splits)
  have fresh2: "ids_fresh ?s2"
  proof -
    have "gr_id r' < next_group_id ?s1" if "r' \<in> set (group_rows ?s2)" for r'
    proof -
      from origin [OF that] obtain r where r: "r \<in> set (group_rows s)"
        "reassign_representative now ?s1 r = Some r'" by blast
      from r(2) have "gr_id r' = gr_id r" by (rule same_id)
      with r(1) fresh1 show ?thesis by (simp add: ids_fresh_def groups1)
    qed
    with fresh1 show ?thesis
      by (simp add: ids_fresh_def faces2 nf2 ng2)
  qed
  have "representative_valid ?s2 r'" if r': "r' \<in> set (group_rows ?s2)" for r'
  proof -
    from origin [OF r'] obtain r where r: "r \<in> set (group_rows s)"
      and re: "reassign_representative now ?s1 r = Some r'" by blast
    have "\<exists>f \<in> set (face_rows ?s1). gr_representative_face_id r' = Some (fr_id f) \<and>
            fr_person_group_id f = Some (gr_id r')"
    proof (cases "representative_present ?s1 r")
      case True
      with re have eq: "r' = r" by (simp add: reassign_representative_def)
      from True obtain fid f1 where rep: "gr_representative_face_id r = Some fid"
        and found: "find_face ?s1 fid = Some f1"
        by (auto simp: representative_present_def split: option.splits)
      from found fresh1 have f1: "f1 \<in> set (face_rows ?s1)" "fr_id f1 = fid"
        by (simp_all add: find_face_iff ids_fresh_def)
      from r valid have "representative_valid s r" by blast
      with fresh obtain f where f: "f \<in> set (face_rows s)"
        "gr_representative_face_id r = Some (fr_id f)" "fr_person_group_id f = Some (gr_id r)"
        by (auto simp: representative_valid_iff ids_fresh_def)
      from f(2) rep f1(2) have "fr_id f1 = fr_id f" by simp
      moreover from f1(1) faces1 have "f1 \<in> set (face_rows s)" by blast
      moreover from fresh have "distinct (map fr_id (face_rows s))" by (simp add: ids_fresh_def)
      ultimately have "f1 = f" using f(1) by (meson same_id_same_face)
      with f1(1) f(2,3) eq show ?thesis by blast
    next
      case False
      with re obtain m ms where ms: "group_members ?s1 (gr_id r) = m # ms"
        and eq: "r' = r\<lparr>gr_representative_face_id := Some (fr_id (choose_representative m ms)),
                        gr_updated_at := now\<rparr>"
        by (auto simp: reassign_representative_def split: list.splits)
      have "choose_representative m ms \<in> set (group_members ?s1 (gr_id r))"
        unfolding ms by (rule choose_representative_in)
      then have "choose_representative m ms \<in> set (face_rows ?s1)"
        "fr_person_group_id (choose_representative m ms) = Some (gr_id r)"
        by (simp_all add: group_members_def)
      with eq show ?thesis by auto
    qed
    with fresh2 show ?thesis
      by (simp add: representative_valid_iff ids_fresh_def faces2)
  qed
  with fresh2 show ?thesis by (simp add: store_inv_def)
qed

lemma store_inv_reprocess:
  assumes "store_inv s"
  shows "store_inv (snd (reprocess cfg img res now s))"
proof (cases "image_status s img = Processing")
  case True
  with assms show ?thesis by (simp add: reprocess_def)
next
  case False
  show ?thesis
  proof (cases res)
    case DetectorFailed
    with False assms show ?thesis by (simp add: reprocess_def store_inv_set_status)
  next
    case (Detected ds)
    let ?t = "maintain_groups now (delete_image_faces img (set_status img Processing s))"
    from assms have "store_inv (set_status img Processing s)"
      by (simp add: store_inv_set_status)
    then have t: "store_inv ?t" by (rule store_inv_maintain_after_delete)
    show ?thesis
    proof (cases "assign_all cfg img ds now ?t")
      case (Inl e)
      with False Detected assms show ?thesis
        by (simp add: reprocess_def store_inv_set_status)
    next
      case (Inr s')
      with t have "store_inv s'" by (rule store_inv_assign_all)
      with False Detected Inr show ?thesis
        by (simp add: reprocess_def store_inv_set_status)
    qed
  qed
qed

lemma store_inv_step:
  assumes "store_inv s"
  shows "store_inv (snd (step cfg op s))"
proof (cases op)
  case (Assign img d now)
  show ?thesis
  proof (cases "assign cfg img d now s")
    case (Inl e)
    with Assign assms show ?thesis by (simp add: step_def)
  next
    case (Inr p)
    obtain f s' where p: "p = (f, s')" by (cases p)
    with Inr assms have "store_inv s'" by (auto intro: store_inv_assign)
    with Assign Inr p show ?thesis by (simp add: step_def)
  qed
next
  case (Merge source target)
  with assms show ?thesis by (simp add: step_def store_inv_merge)
next
  case (Reprocess img res now)
  with assms show ?thesis by (simp add: step_def store_inv_reprocess)
next
  case (Delete g)
  with assms show ?thesis by (simp add: step_def store_inv_delete_group)
qed

lemma store_inv_run: "store_inv s \<Longrightarrow> store_inv (run cfg ops s)"
proof (induction ops arbitrary: s)
  case Nil
  then show ?case by (simp add: run_def)
next
  case (Cons op ops)
  from Cons.prems have "store_inv (snd (step cfg op s))" by (rule store_inv_step)
  then have "store_inv (run cfg ops (snd (step cfg op s)))" by (rule Cons.IH)
  then show ?case by (simp add: run_def)
qed

lemma store_inv_reachable: "store_inv (run cfg ops empty_store)"
  by (rule store_inv_run [OF store_inv_empty])

subsection \<open>The best match\<close>

lemma sort_key_head:
  assumes "sort_key k xs = y # ys"
  shows "y \<in> set xs" and "\<forall>x \<in> set xs. k y \<le> k x"
    and "hd (filter (\<lambda>x. k x = k y) xs) = y"
proof -
  have s: "set xs = set (y # ys)"
    using assms by (metis set_sort)
  then show "y \<in> set xs" by simp
  have "sorted (map k (y # ys))"
    using assms by (metis sorted_sort_key)
  then have "\<forall>x \<in> set ys. k y \<le> k x" by simp
  with s show "\<forall>x \<in> set xs. k y \<le> k x" by simp
  have "filter (\<lambda>x. k x = k y) xs = filter (\<lambda>x. k x = k y) (sort_key k xs)"
    by (simp add: sort_key_stable)
  also have "\<dots> = y # filter (\<lambda>x. k x = k y) ys"
    by (simp add: assms)
  finally show "hd (filter (\<lambda>x. k x = k y) xs) = y" by simp
qed

lemma nearest_one_empty:
  "nearest s e 1 = [] \<longleftrightarrow> similarities s e = []"
proof -
  have "length (sort_key (\<lambda>(g, sim). - sim) (similarities s e)) = length (similarities s e)"
    by simp
  then show ?thesis
    unfolding nearest_def
    by (cases "sort_key (\<lambda>(g, sim). - sim) (similarities s e)"; cases "similarities s e") simp_all
qed

lemma nearest_one_best:
  assumes "nearest s e 1 = m # ms"
  shows "best_match (similarities s e) m"
proof -
  let ?k = "\<lambda>p :: group_id \<times> real. case p of (g, sim) \<Rightarrow> - sim"
  from assms obtain rest where sorted: "sort_key ?k (similarities s e) = m # rest"
    unfolding nearest_def
    by (cases "sort_key ?k (similarities s e)") simp_all
  have k: "?k x = - snd x" for x by (cases x) simp
  from sort_key_head [OF sorted]
  have "m \<in> set (similarities s e)" "\<forall>x \<in> set (similarities s e). snd x \<le> snd m"
    "hd (filter (\<lambda>x. snd x = snd m) (similarities s e)) = m"
    by (simp_all add: k)
  then show ?thesis by (simp add: best_match_def)
qed

text \<open>
  Claim C1. \<open>assign\<close> on a detection of the configured dimensionality stores exactly one
  new face. If some existing group's representative is at least \<open>SIMILARITY_THRESHOLD\<close>
  similar to the detection, no group is created and the face is assigned to the best
  match: the group of highest similarity, the earliest created among equals. Otherwise
  exactly one group is created, with the new face as its representative, and the face
  is assigned to it. With the default configuration the threshold is 0.6.
\<close>

theorem assign_rule:
  assumes "length (det_embedding d) = EMBEDDING_DIM cfg"
  shows "\<exists>f s'. assign cfg img d now s = Inr (f, s') \<and>
           face_rows s' = face_rows s @ [f] \<and>
           fr_id f = next_face_id s \<and> fr_image_id f = img \<and>
           fr_embedding f = det_embedding d \<and>
           (if \<exists>m \<in> set (similarities s (det_embedding d)). SIMILARITY_THRESHOLD cfg \<le> snd m
            then group_rows s' = group_rows s \<and>
                 (\<exists>m. best_match (similarities s (det_embedding d)) m \<and>
                      SIMILARITY_THRESHOLD cfg \<le> snd m \<and>
                      fr_person_group_id f = Some (fst m))
            else \<exists>r. group_rows s' = group_rows s @ [r] \<and>
                     gr_id r = next_group_id s \<and>
                     gr_representative_face_id r = Some (fr_id f) \<and>
                     fr_person_group_id f = Some (gr_id r))"
proof (cases "nearest s (det_embedding d) 1")
  case Nil
  then have "similarities s (det_embedding d) = []"
    using nearest_one_empty [of s "det_embedding d"] by simp
  with Nil assms show ?thesis
    by (simp add: assign_def create_group_def new_face_def Let_def)
next
  case (Cons m ms)
  then have best: "best_match (similarities s (det_embedding d)) m"
    by (rule nearest_one_best)
  obtain g sim where m: "m = (g, sim)" by (cases m)
  show ?thesis
  proof (cases "SIMILARITY_THRESHOLD cfg \<le> sim")
    case True
    from best have "m \<in> set (similarities s (det_embedding d))"
      by (simp add: best_match_def)
    moreover from True m have "SIMILARITY_THRESHOLD cfg \<le> snd m" by simp
    ultimately have "\<exists>m \<in> set (similarities s (det_embedding d)). SIMILARITY_THRESHOLD cfg \<le> snd m"
      by blast
    moreover from True best m
    have "\<exists>m. best_match (similarities s (det_embedding d)) m \<and>
                      SIMILARITY_THRESHOLD cfg \<le> snd m \<and> Some g = Some (fst m)"
      by auto
    ultimately show ?thesis
      using Cons m True assms
      by (simp add: assign_def join_group_def new_face_def Let_def)
  next
    case False
    with best m have "\<not> (\<exists>m \<in> set (similarities s (det_embedding d)). SIMILARITY_THRESHOLD cfg \<le> snd m)"
      by (fastforce simp: best_match_def)
    then show ?thesis
      using Cons m False assms
      by (simp add: assign_def create_group_def new_face_def Let_def)
  qed
qed

lemma similarities_of_valid_store:
  assumes "store_inv s"
  shows "map fst (similarities s e) = map gr_id (group_rows s)"
proof -
  have "\<exists>v. representative_embedding s r = Some v" if "r \<in> set (group_rows s)" for r
  proof -
    from assms that have "representative_valid s r" by (simp add: store_inv_def)
    then show ?thesis
      by (auto simp: representative_valid_def representative_embedding_def split: option.splits)
  qed
  then have "map fst (List.map_filter
       (\<lambda>g. map_option (\<lambda>r. (gr_id g, cosine_similarity e r)) (representative_embedding s g)) rs)
     = map gr_id rs" if "set rs \<subseteq> set (group_rows s)" for rs
    using that
  proof (induction rs)
    case Nil
    show ?case by (simp add: map_filter_simps)
  next
    case (Cons r rs)
    from Cons.prems have "r \<in> set (group_rows s)" by simp
    then obtain v where "representative_embedding s r = Some v"
      using \<open>\<And>r. r \<in> set (group_rows s) \<Longrightarrow> \<exists>v. representative_embedding s r = Some v\<close>
      by blast
    with Cons show ?case by (simp add: map_filter_simps)
  qed
  then show ?thesis by (simp add: similarities_def)
qed

subsection \<open>The scenario of section 8\<close>

lemmas core_defs =
  run_def step_def reprocess_def empty_store_def set_status_def delete_image_faces_def
  maintain_groups_def assign_def nearest_def similarities_def map_filter_simps
  create_group_def join_group_def new_face_def default_config_def
  representative_embedding_def find_face_def cosine_similarity_def dot_def l2_norm_def Let_def
  reassign_representative_def representative_present_def group_members_def merge_groups_def
  group_exists_def delete_group_def better_representative_def
  first_seen_def seen_again_def stranger_def

lemma threshold_is_inclusive:
  "cosine_similarity [0.6, 0.8, 0, 0] (det_embedding first_seen) =
     SIMILARITY_THRESHOLD (default_config 4) \<and>
   (\<exists>f s'. assign (default_config 4) 2
        \<lparr>det_bbox = example_box, det_confidence = 0.5, det_embedding = [0.6, 0.8, 0, 0]\<rparr> 11
        one_group_store = Inr (f, s') \<and>
      fr_person_group_id f = Some 0 \<and> group_rows s' = group_rows one_group_store)"
  by (simp add: one_group_store_def core_defs)

lemma one_group_store_rows:
  "group_rows one_group_store =
     [\<lparr>gr_id = 0, gr_name = None, gr_representative_face_id = Some 0,
       gr_created_at = 10, gr_updated_at = 10\<rparr>]"
  "face_rows one_group_store = [new_face empty_store 1 first_seen 10 0]"
  "next_group_id one_group_store = 1"
  "next_face_id one_group_store = 1"
  by (simp_all add: one_group_store_def core_defs)

lemma similarities_seen_again:
  "similarities one_group_store (det_embedding seen_again) = [(0, 0.8)]"
  by (simp add: similarities_def one_group_store_rows representative_embedding_def find_face_def
      new_face_def first_seen_def seen_again_def empty_store_def map_filter_simps
      cosine_similarity_def dot_def l2_norm_def)

lemma similarities_stranger:
  "similarities one_group_store (det_embedding stranger) = [(0, 0.3)]"
  by (simp add: similarities_def one_group_store_rows representative_embedding_def find_face_def
      new_face_def first_seen_def stranger_def empty_store_def map_filter_simps
      cosine_similarity_def dot_def l2_norm_def)

lemma scenario_rows:
  "group_rows (run (default_config 4) scenario empty_store) = [scenario_group]"
  "map fr_id (face_rows (run (default_config 4) scenario empty_store)) = [1, 2]"
  "map fr_person_group_id (face_rows (run (default_config 4) scenario empty_store)) = [Some 0, Some 0]"
  by (simp_all add: scenario_def scenario_group_def core_defs)

theorem assign_rule_witness:
  "length (det_embedding seen_again) = EMBEDDING_DIM (default_config 4) \<and>
   length (det_embedding stranger) = EMBEDDING_DIM (default_config 4) \<and>
   (\<exists>f s'. assign (default_config 4) 2 seen_again 11 one_group_store = Inr (f, s') \<and>
      group_rows s' = group_rows one_group_store \<and> fr_person_group_id f = Some 0) \<and>
   (\<exists>f s' r. assign (default_config 4) 3 stranger 12 one_group_store = Inr (f, s') \<and>
      group_rows s' = group_rows one_group_store @ [r] \<and> gr_id r = 1 \<and>
      gr_representative_face_id r = Some (fr_id f) \<and> fr_person_group_id f = Some 1)"
proof -
  have dims: "length (det_embedding seen_again) = EMBEDDING_DIM (default_config 4)"
    "length (det_embedding stranger) = EMBEDDING_DIM (default_config 4)"
    by (simp_all add: seen_again_def stranger_def default_config_def)
  have only: "best_match [x] m \<longleftrightarrow> m = x" for x m :: "group_id \<times> real"
    by (auto simp: best_match_def)
  from assign_rule [OF dims(1), of 2 11 one_group_store]
  have join: "\<exists>f s'. assign (default_config 4) 2 seen_again 11 one_group_store = Inr (f, s') \<and>
      group_rows s' = group_rows one_group_store \<and> fr_person_group_id f = Some 0"
    by (auto simp: similarities_seen_again default_config_def only)
  from assign_rule [OF dims(2), of 3 12 one_group_store]
  have create: "\<exists>f s' r. assign (default_config 4) 3 stranger 12 one_group_store = Inr (f, s') \<and>
      group_rows s' = group_rows one_group_store @ [r] \<and> gr_id r = 1 \<and>
      gr_representative_face_id r = Some (fr_id f) \<and> fr_person_group_id f = Some 1"
    by (simp add: similarities_stranger default_config_def one_group_store_rows(3)) metis
  from dims join create show ?thesis by blast
qed

subsection \<open>Groups in reachable states\<close>

text \<open>
  Claim C2. After any sequence of assign, merge, reprocess and delete operations from
  the empty store, every group that exists has at least one member face.
\<close>

theorem no_empty_group:
  "\<forall>g \<in> set (group_rows (run cfg ops empty_store)).
      group_members (run cfg ops empty_store) (gr_id g) \<noteq> []"
proof
  fix g
  let ?s = "run cfg ops empty_store"
  assume g: "g \<in> set (group_rows ?s)"
  have inv: "store_inv ?s" by (rule store_inv_reachable)
  with g have "representative_valid ?s g" by (simp add: store_inv_def)
  moreover from inv have "distinct (map fr_id (face_rows ?s))"
    by (simp add: store_inv_def ids_fresh_def)
  ultimately obtain f where "f \<in> set (face_rows ?s)" "fr_person_group_id f = Some (gr_id g)"
    by (auto simp: representative_valid_iff)
  then have "f \<in> set (group_members ?s (gr_id g))"
    by (simp add: group_members_def)
  then show "group_members ?s (gr_id g) \<noteq> []" by auto
qed

theorem no_empty_group_witness:
  "scenario_group \<in> set (group_rows (run (default_config 4) scenario empty_store)) \<and>
   group_members (run (default_config 4) scenario empty_store) (gr_id scenario_group) \<noteq> [] \<and>
   map gr_id (group_rows (run (default_config 4) scenario empty_store)) = [0]"
proof -
  have "scenario_group \<in> set (group_rows (run (default_config 4) scenario empty_store))"
    by (simp add: scenario_rows)
  moreover from this no_empty_group [of "default_config 4" scenario]
  have "group_members (run (default_config 4) scenario empty_store) (gr_id scenario_group) \<noteq> []"
    by blast
  moreover have "map gr_id (group_rows (run (default_config 4) scenario empty_store)) = [0]"
    by (simp add: scenario_rows scenario_group_def)
  ultimately show ?thesis by blast
qed

text \<open>
  Claim C3. After any sequence of operations from the empty store, the
  \<open>representative_face_id\<close> of every group is not null and is the id of a stored face
  whose \<open>person_group_id\<close> is the id of the group.
\<close>

theorem representative_is_member:
  "\<forall>g \<in> set (group_rows (run cfg ops empty_store)).
     \<exists>fid f. gr_representative_face_id g = Some fid \<and>
       find_face (run cfg ops empty_store) fid = Some f \<and>
       f \<in> set (face_rows (run cfg ops empty_store)) \<and>
       fr_id f = fid \<and>
       fr_person_group_id f = Some (gr_id g)"
proof
  fix g
  let ?s = "run cfg ops empty_store"
  assume g: "g \<in> set (group_rows ?s)"
  have inv: "store_inv ?s" by (rule store_inv_reachable)
  with g have "representative_valid ?s g" by (simp add: store_inv_def)
  then obtain fid f where rep: "gr_representative_face_id g = Some fid"
    and found: "find_face ?s fid = Some f"
    and member: "fr_person_group_id f = Some (gr_id g)"
    by (auto simp: representative_valid_def split: option.splits)
  from inv have "distinct (map fr_id (face_rows ?s))"
    by (simp add: store_inv_def ids_fresh_def)
  with found have "f \<in> set (face_rows ?s)" "fr_id f = fid"
    by (simp_all add: find_face_iff)
  with rep found member
  show "\<exists>fid f. gr_representative_face_id g = Some fid \<and> find_face ?s fid = Some f \<and>
       f \<in> set (face_rows ?s) \<and> fr_id f = fid \<and> fr_person_group_id f = Some (gr_id g)"
    by blast
qed

theorem representative_is_member_witness:
  "scenario_group \<in> set (group_rows (run (default_config 4) scenario empty_store)) \<and>
   gr_representative_face_id scenario_group = Some 1 \<and>
   (\<exists>f. find_face (run (default_config 4) scenario empty_store) 1 = Some f \<and>
        fr_person_group_id f = Some 0)"
proof -
  have g: "scenario_group \<in> set (group_rows (run (default_config 4) scenario empty_store))"
    by (simp add: scenario_rows)
  have rep: "gr_representative_face_id scenario_group = Some 1" "gr_id scenario_group = 0"
    by (simp_all add: scenario_group_def)
  from g representative_is_member [of "default_config 4" scenario]
  obtain fid f where "gr_representative_face_id scenario_group = Some fid"
    "find_face (run (default_config 4) scenario empty_store) fid = Some f"
    "fr_person_group_id f = Some (gr_id scenario_group)"
    by blast
  with rep have "find_face (run (default_config 4) scenario empty_store) 1 = Some f"
    "fr_person_group_id f = Some 0"
    by simp_all
  with g rep(1) show ?thesis by blast
qed

end
